theory Spec2Isabelle
  imports Complex_Main "HOL-Library.AList"
begin

section \<open>Strings, dictionaries and the external libraries\<close>

text \<open>
  The program is the single file \<^verbatim>\<open>newsbot.py\<close>. Its Python strings are modelled as
  \<^typ>\<open>string\<close>, one \<^typ>\<open>char\<close> per code point, so the model covers exactly the
  Python strings whose code points lie in U+0000 .. U+00FF. On that alphabet
  \<^verbatim>\<open>str.isspace\<close> (used by \<^verbatim>\<open>split()\<close>, \<^verbatim>\<open>strip()\<close> and the regular
  expression class \<^verbatim>\<open>\s\<close>) holds for 9..13, 28..32, 133 and 160, and
  \<^verbatim>\<open>str.lower\<close> adds 32 to A..Z and to 192..222 except 215.

  A Python \<^verbatim>\<open>dict\<close> keeps its keys in insertion order and has no repeated key. It
  is modelled as an association list: \<^term>\<open>map_of\<close> reads a key,
  \<^term>\<open>AList.update\<close> is \<^verbatim>\<open>d[k] = v\<close> (in place when the key is present, at the
  end otherwise) and \<^term>\<open>AList.delete\<close> is \<^verbatim>\<open>del d[k]\<close>.
\<close>

definition is_space :: "char \<Rightarrow> bool" where
  "is_space c =
     (let n = (of_char c :: nat)
      in (9 \<le> n \<and> n \<le> 13) \<or> (28 \<le> n \<and> n \<le> 32) \<or> n = 133 \<or> n = 160)"

definition lower_char :: "char \<Rightarrow> char" where
  "lower_char c =
     (let n = (of_char c :: nat)
      in if (65 \<le> n \<and> n \<le> 90) \<or> (192 \<le> n \<and> n \<le> 222 \<and> n \<noteq> 215)
         then char_of (n + 32) else c)"

definition lower :: "string \<Rightarrow> string" where
  "lower text = map lower_char text"

text \<open>\<^verbatim>\<open>text.split()\<close>: the maximal runs of non-whitespace, in order.\<close>

fun split_from :: "string \<Rightarrow> string \<Rightarrow> string list" where
  "split_from cur [] = (if cur = [] then [] else [cur])"
| "split_from cur (c # cs) =
     (if is_space c
      then (if cur = [] then split_from [] cs else cur # split_from [] cs)
      else split_from (cur @ [c]) cs)"

definition split :: "string \<Rightarrow> string list" where
  "split text = split_from [] text"

text \<open>\<^verbatim>\<open>" ".join(words)\<close>.\<close>

fun join_space :: "string list \<Rightarrow> string" where
  "join_space [] = []"
| "join_space [w] = w"
| "join_space (w # v # ws) = w @ '' '' @ join_space (v # ws)"

text \<open>
  The exceptions of Python that the modelled code can meet. Only
  \<open>JSONDecodeError\<close> is caught by name in the source; every constructor is a
  subclass of \<^verbatim>\<open>Exception\<close>.
\<close>

datatype py_error =
  JSONDecodeError | ValueError | SyntaxError | RecursionError | MemoryError
  | TypeError | ZeroDivisionError | KeyError

text \<open>
  NLTK's \<^verbatim>\<open>PorterStemmer.stem\<close> and \<^verbatim>\<open>WordNetLemmatizer.lemmatize\<close> are not
  code of the repository: they are parameters of the model, and every theorem
  below holds for whatever functions on tokens they are.
\<close>

record nltk =
  stem :: "string \<Rightarrow> string"
  lemmatize :: "string \<Rightarrow> string"

section \<open>Normalizer and similarity matcher\<close>

text \<open>
  \<^verbatim>\<open>def normalize(text):
    words = text.lower().split()
    stemmed = [stemmer.stem(w) for w in words]
    lemmatized = [lemmatizer.lemmatize(w) for w in stemmed]
    return " ".join(lemmatized)\<close>
\<close>

definition normalize :: "nltk \<Rightarrow> string \<Rightarrow> string" where
  "normalize N text =
     (let words = split (lower text);
          stemmed = map (stem N) words;
          lemmatized = map (lemmatize N) stemmed
      in join_space lemmatized)"

text \<open>
  A history entry is the dictionary \<^verbatim>\<open>{"title": .., "pubDate": ..}\<close>; a fetched
  article has the same two keys and \<^verbatim>\<open>"link"\<close>, which \<^verbatim>\<open>findtext\<close> may leave
  \<^verbatim>\<open>None\<close>.
\<close>

record entry =
  title :: string
  pubDate :: string

record article = entry +
  link :: "string option"

type_synonym history = "(string \<times> entry list) list"

definition MATCH_THRESHOLD :: real where
  "MATCH_THRESHOLD = 0.4"

text \<open>
  \<^verbatim>\<open>def is_in_history(article_title, history):
    norm_title_tokens = set(normalize(article_title).split())
    for articles in history.values():
        for a in articles:
            past_tokens = set(normalize(a["title"]).split())
            if not past_tokens:
                continue
            overlap = norm_title_tokens.intersection(past_tokens)
            similarity = len(overlap) / len(norm_title_tokens)
            if similarity >= MATCH_THRESHOLD:
                return True
    return False\<close>

  The inner loop returns \<open>Inr True\<close> for the early \<^verbatim>\<open>return True\<close>, \<open>Inr False\<close>
  when it runs to its end, and \<open>Inl ZeroDivisionError\<close> where the true division
  \<^verbatim>\<open>/\<close> has the divisor 0. The quotient of the two lengths is the exact
  rational; Python rounds it to a double, which compares with the double
  \<^verbatim>\<open>0.4\<close> as the rational does with 2/5 for every token count below \<open>2^50\<close>.
\<close>

fun is_in_history_articles :: "nltk \<Rightarrow> string set \<Rightarrow> entry list \<Rightarrow> py_error + bool" where
  "is_in_history_articles N norm_title_tokens [] = Inr False"
| "is_in_history_articles N norm_title_tokens (a # articles) =
     (let past_tokens = set (split (normalize N (title a)))
      in if past_tokens = {} then is_in_history_articles N norm_title_tokens articles
         else let overlap = norm_title_tokens \<inter> past_tokens
              in if card norm_title_tokens = 0 then Inl ZeroDivisionError
                 else if real (card overlap) / real (card norm_title_tokens) \<ge> MATCH_THRESHOLD
                      then Inr True
                      else is_in_history_articles N norm_title_tokens articles)"

fun is_in_history_values :: "nltk \<Rightarrow> string set \<Rightarrow> history \<Rightarrow> py_error + bool" where
  "is_in_history_values N norm_title_tokens [] = Inr False"
| "is_in_history_values N norm_title_tokens ((topic, articles) # rest) =
     (case is_in_history_articles N norm_title_tokens articles of
        Inl e \<Rightarrow> Inl e
      | Inr found \<Rightarrow>
          if found then Inr True else is_in_history_values N norm_title_tokens rest)"

definition is_in_history :: "nltk \<Rightarrow> string \<Rightarrow> history \<Rightarrow> py_error + bool" where
  "is_in_history N article_title history =
     (let norm_title_tokens = set (split (normalize N article_title))
      in is_in_history_values N norm_title_tokens history)"

section \<open>Resilient structured-output parser\<close>

text \<open>
  What \<^verbatim>\<open>json.loads\<close> and \<^verbatim>\<open>ast.literal_eval\<close> return: any Python literal.
  A float or complex number is carried by its source text, a set by its
  elements.
\<close>

datatype pyvalue =
  PNone | PEllipsis | PBool bool | PInt int | PFloat string | PComplex string
  | PStr string | PBytes string
  | PList "pyvalue list" | PTuple "pyvalue list" | PSet "pyvalue list"
  | PDict "(pyvalue \<times> pyvalue) list"

text \<open>
  The two parsers of the standard library are parameters of the model, as the
  NLTK functions are: \<open>Inl e\<close> is the exception they raise.
\<close>

record parsers =
  json_loads :: "string \<Rightarrow> py_error + pyvalue"
  literal_eval :: "string \<Rightarrow> py_error + pyvalue"

definition strip :: "string \<Rightarrow> string" where
  "strip text = rev (dropWhile is_space (rev (dropWhile is_space text)))"

definition rstrip_space :: "string \<Rightarrow> string" where
  "rstrip_space text = rev (dropWhile is_space (rev text))"

text \<open>
  \<^verbatim>\<open>re.sub(r"^```(?:json)?\s*", "", text)\<close>: a fence at the very start goes, with
  the tag \<^verbatim>\<open>json\<close> when it follows and the whitespace after it.
\<close>

definition sub_leading_fence :: "string \<Rightarrow> string" where
  "sub_leading_fence text =
     (if take 3 text = ''```''
      then let rest = drop 3 text;
               rest = (if take 4 rest = ''json'' then drop 4 rest else rest)
           in dropWhile is_space rest
      else text)"

text \<open>
  \<^verbatim>\<open>re.sub(r"\s*```$", "", text)\<close>: a fence at the very end goes, with the
  whitespace before it. The text was stripped, so it does not end in a newline
  and \<^verbatim>\<open>$\<close> is the end of the text.
\<close>

definition sub_trailing_fence :: "string \<Rightarrow> string" where
  "sub_trailing_fence text =
     (if 3 \<le> length text \<and> drop (length text - 3) text = ''```''
      then rstrip_space (take (length text - 3) text)
      else text)"

text \<open>
  \<^verbatim>\<open>def strip_wrappers(text):
    text = text.strip()
    text = re.sub(r"^```(?:json)?\s*", "", text)
    text = re.sub(r"\s*```$", "", text)
    return text\<close>
\<close>

definition strip_wrappers :: "string \<Rightarrow> string" where
  "strip_wrappers text =
     (let text = strip text;
          text = sub_leading_fence text;
          text = sub_trailing_fence text
      in text)"

text \<open>
  \<^verbatim>\<open>def balance_braces(text):
    open_braces = text.count('{')
    close_braces = text.count('}')
    if open_braces > close_braces:
        text += '}' * (open_braces - close_braces)
    elif close_braces > open_braces:
        text = text.rstrip('}')[:-(close_braces - open_braces)]
    open_brackets = text.count('[')
    close_brackets = text.count(']')
    if open_brackets > close_brackets:
        text += ']' * (open_brackets - close_brackets)
    elif close_brackets > open_brackets:
        text = text.rstrip(']')[:-(close_brackets - open_brackets)]
    return text\<close>

  \<^verbatim>\<open>s.rstrip('}')\<close> drops every trailing closer, and \<^verbatim>\<open>s[:-k]\<close> for \<open>k > 0\<close>
  keeps the first \<open>len(s) - k\<close> characters (none when \<open>k\<close> exceeds the length).
\<close>

definition balance_braces :: "string \<Rightarrow> string" where
  "balance_braces text =
     (let open_braces = count_list text CHR ''{'';
          close_braces = count_list text CHR ''}'';
          text = (if open_braces > close_braces
                  then text @ replicate (open_braces - close_braces) CHR ''}''
                  else if close_braces > open_braces
                  then (let stripped = rev (dropWhile (\<lambda>c. c = CHR ''}'') (rev text))
                        in take (length stripped - (close_braces - open_braces)) stripped)
                  else text);
          open_brackets = count_list text CHR ''['';
          close_brackets = count_list text CHR '']'';
          text = (if open_brackets > close_brackets
                  then text @ replicate (open_brackets - close_brackets) CHR '']''
                  else if close_brackets > open_brackets
                  then (let stripped = rev (dropWhile (\<lambda>c. c = CHR '']'') (rev text))
                        in take (length stripped - (close_brackets - open_brackets)) stripped)
                  else text)
      in text)"

text \<open>
  The substitutions of \<^verbatim>\<open>fix_common_json_errors\<close>. \<^verbatim>\<open>re.sub\<close> scans from the
  left, replaces the match that starts at the current position when there is
  one and goes on behind it, and otherwise copies one character.

  \<^verbatim>\<open>re.sub(r",\s*([\]}])", r"\1", text)\<close>: a comma, whitespace and a closer
  become the closer.
\<close>

function sub_trailing_commas :: "string \<Rightarrow> string" where
  "sub_trailing_commas [] = []"
| "sub_trailing_commas (c # cs) =
     (if c = CHR '','' then
        (case dropWhile is_space cs of
           [] \<Rightarrow> c # sub_trailing_commas cs
         | d # rest \<Rightarrow>
             if d = CHR '']'' \<or> d = CHR ''}'' then d # sub_trailing_commas rest
             else c # sub_trailing_commas cs)
      else c # sub_trailing_commas cs)"
  by pat_completeness auto
termination
proof (relation "measure length")
  fix c :: char and cs d rest
  assume "dropWhile is_space cs = d # rest"
  then have "length (d # rest) \<le> length cs"
    by (metis length_dropWhile_le)
  then show "(rest, c # cs) \<in> measure length" by simp
qed auto

text \<open>
  \<^verbatim>\<open>re.sub(r"(?<=[:\s])'([^']*?)'", r'"\1"', text)\<close>: a single quote that follows
  a colon or whitespace, up to the next single quote, is requoted with double
  quotes. \<open>prev\<close> is the character before the current position; the single
  quote is \<open>CHR 0x27\<close> and the double quote \<open>CHR 0x22\<close>.
\<close>

function sub_single_quotes :: "char option \<Rightarrow> string \<Rightarrow> string" where
  "sub_single_quotes prev [] = []"
| "sub_single_quotes prev (c # cs) =
     (if c = CHR 0x27 \<and> (case prev of None \<Rightarrow> False | Some p \<Rightarrow> p = CHR '':'' \<or> is_space p) then
        (case dropWhile (\<lambda>d. d \<noteq> CHR 0x27) cs of
           [] \<Rightarrow> c # sub_single_quotes (Some c) cs
         | q # rest \<Rightarrow>
             CHR 0x22 # takeWhile (\<lambda>d. d \<noteq> CHR 0x27) cs
               @ CHR 0x22 # sub_single_quotes (Some q) rest)
      else c # sub_single_quotes (Some c) cs)"
  by pat_completeness auto
termination
proof (relation "measure (\<lambda>(prev, text). length text)")
  fix prev :: "char option" and c :: char and cs q rest
  assume "dropWhile (\<lambda>d. d \<noteq> CHR 0x27) cs = q # rest"
  then have "length (q # rest) \<le> length cs"
    by (metis length_dropWhile_le)
  then show "((Some q, rest), (prev, c # cs)) \<in> measure (\<lambda>(prev, text). length text)"
    by simp
qed auto

text \<open>
  \<^verbatim>\<open>re.sub(r'(\[[^\[\]]*?)\s*\}', r'\1]', text)\<close>: an opening bracket whose next
  bracket or brace is a closing brace has that brace, and the whitespace before
  it, replaced by a closing bracket.
\<close>

function sub_array_brace :: "string \<Rightarrow> string" where
  "sub_array_brace [] = []"
| "sub_array_brace (c # cs) =
     (if c = CHR ''['' then
        (case dropWhile (\<lambda>d. d \<noteq> CHR ''['' \<and> d \<noteq> CHR '']'' \<and> d \<noteq> CHR ''}'') cs of
           [] \<Rightarrow> c # sub_array_brace cs
         | d # rest \<Rightarrow>
             if d = CHR ''}''
             then c # rstrip_space
                        (takeWhile (\<lambda>d. d \<noteq> CHR ''['' \<and> d \<noteq> CHR '']'' \<and> d \<noteq> CHR ''}'') cs)
                  @ CHR '']'' # sub_array_brace rest
             else c # sub_array_brace cs)
      else c # sub_array_brace cs)"
  by pat_completeness auto
termination
proof (relation "measure length")
  fix c :: char and cs d rest
  assume "dropWhile (\<lambda>d. d \<noteq> CHR ''['' \<and> d \<noteq> CHR '']'' \<and> d \<noteq> CHR ''}'') cs = d # rest"
  then have "length (d # rest) \<le> length cs"
    by (metis length_dropWhile_le)
  then show "(rest, c # cs) \<in> measure length" by simp
qed auto

text \<open>
  \<^verbatim>\<open>re.sub(r"[\x00-\x1f\x7f\u202a-\u202e\u2060\uFEFF]", "", text)\<close> removes
  the characters of the class: on the alphabet of the model, 0..31 and 127.
\<close>

definition is_control :: "char \<Rightarrow> bool" where
  "is_control c = (let n = (of_char c :: nat) in n \<le> 31 \<or> n = 127)"

text \<open>
  \<^verbatim>\<open>def fix_common_json_errors(text):
    text = text.replace(u201C, '"').replace(u201D, '"').replace(u2018, "'").replace(u2019, "'")
    text = re.sub(r",\s*([\]}])", r"\1", text)
    text = re.sub(r"(?<=[:\s])'([^']*?)'", r'"\1"', text)
    text = re.sub(r'(\[[^\[\]]*?)\s*\}', r'\1]', text)
    text = re.sub(r"[\x00-\x1f\x7f\u202a-\u202e\u2060\uFEFF]", "", text)
    text = balance_braces(text)
    return text\<close>

  The four smart quotes U+201C, U+201D, U+2018, U+2019 are beyond U+00FF: no
  string of the model holds one, and the four \<^verbatim>\<open>replace\<close> calls return their
  argument.
\<close>

definition fix_common_json_errors :: "string \<Rightarrow> string" where
  "fix_common_json_errors text =
     (let text = sub_trailing_commas text;
          text = sub_single_quotes None text;
          text = sub_array_brace text;
          text = filter (\<lambda>c. \<not> is_control c) text;
          text = balance_braces text
      in text)"

text \<open>
  \<^verbatim>\<open>re.search(r"\{.*\}", cleaned, re.DOTALL)\<close>: from the first opening brace to
  the last closing brace behind it.
\<close>

definition search_braces :: "string \<Rightarrow> string option" where
  "search_braces text =
     (case dropWhile (\<lambda>c. c \<noteq> CHR ''{'') text of
        [] \<Rightarrow> None
      | c # rest \<Rightarrow>
          if CHR ''}'' \<in> set rest
          then Some (c # rev (dropWhile (\<lambda>d. d \<noteq> CHR ''}'') (rev rest)))
          else None)"

text \<open>
  \<^verbatim>\<open>def safe_parse_json(raw: str) -> dict:
    try:
        return json.loads(raw)
    except json.JSONDecodeError as e: ...
    raw = strip_wrappers(raw)
    cleaned = fix_common_json_errors(raw)
    try:
        return json.loads(cleaned)
    except json.JSONDecodeError as e_json: ...
    try:
        return ast.literal_eval(cleaned)
    except Exception as e_ast: ...
    try:
        match = re.search(r"\{.*\}", cleaned, re.DOTALL)
        if match:
            candidate = match.group(0)
            candidate = fix_common_json_errors(candidate)
            return json.loads(candidate)
    except Exception as e_fallback: ...
    return {}\<close>

  The first two handlers catch \<open>JSONDecodeError\<close> alone, so any other exception
  of \<^verbatim>\<open>json.loads\<close> leaves the function there; the last two catch every
  exception.
\<close>

definition safe_parse_json :: "parsers \<Rightarrow> string \<Rightarrow> py_error + pyvalue" where
  "safe_parse_json P raw =
     (case json_loads P raw of
        Inr v \<Rightarrow> Inr v
      | Inl e \<Rightarrow>
          if e \<noteq> JSONDecodeError then Inl e
          else let raw = strip_wrappers raw;
                   cleaned = fix_common_json_errors raw
               in (case json_loads P cleaned of
                     Inr v \<Rightarrow> Inr v
                   | Inl e_json \<Rightarrow>
                       if e_json \<noteq> JSONDecodeError then Inl e_json
                       else (case literal_eval P cleaned of
                               Inr v \<Rightarrow> Inr v
                             | Inl e_ast \<Rightarrow>
                                 (case search_braces cleaned of
                                    None \<Rightarrow> Inr (PDict [])
                                  | Some candidate \<Rightarrow>
                                      (case json_loads P (fix_common_json_errors candidate) of
                                         Inr v \<Rightarrow> Inr v
                                       | Inl e_fallback \<Rightarrow> Inr (PDict []))))))"

section \<open>Digest reconciler\<close>

text \<open>
  \<open>digest_titles\<close> maps a topic to the titles the model selected,
  \<open>full_articles\<close> a topic to the articles fetched for it, and \<open>digest\<close> a topic
  to the articles that go out.
\<close>

type_synonym digest_titles = "(string \<times> string list) list"
type_synonym digest = "(string \<times> article list) list"

text \<open>\<^verbatim>\<open>d.get(k, [])\<close>; also \<^verbatim>\<open>d[k]\<close> where the key was just seen in the dict.\<close>

definition get_list :: "('k \<times> 'v list) list \<Rightarrow> 'k \<Rightarrow> 'v list" where
  "get_list d k = (case map_of d k of None \<Rightarrow> [] | Some v \<Rightarrow> v)"

text \<open>
  \<^verbatim>\<open>seen_normalized_titles = set()
deduped_digest_titles = {}
for topic, titles in digest_titles.items():
    deduped_titles = []
    for title in titles:
        norm_title = normalize(title)
        if norm_title not in seen_normalized_titles:
            seen_normalized_titles.add(norm_title)
            deduped_titles.append(title)
    if deduped_titles:
        deduped_digest_titles[topic] = deduped_titles
digest_titles = deduped_digest_titles\<close>

  The inner loop returns the set of seen titles with the list it built.
\<close>

fun dedup_titles ::
  "nltk \<Rightarrow> string list \<Rightarrow> string set \<Rightarrow> string list \<Rightarrow> string set \<times> string list" where
  "dedup_titles N [] seen_normalized_titles deduped_titles =
     (seen_normalized_titles, deduped_titles)"
| "dedup_titles N (t # titles) seen_normalized_titles deduped_titles =
     (let norm_title = normalize N t
      in if norm_title \<notin> seen_normalized_titles
         then dedup_titles N titles (insert norm_title seen_normalized_titles)
                (deduped_titles @ [t])
         else dedup_titles N titles seen_normalized_titles deduped_titles)"

fun dedup_topics ::
  "nltk \<Rightarrow> digest_titles \<Rightarrow> string set \<Rightarrow> digest_titles \<Rightarrow> digest_titles" where
  "dedup_topics N [] seen_normalized_titles deduped_digest_titles = deduped_digest_titles"
| "dedup_topics N ((topic, titles) # rest) seen_normalized_titles deduped_digest_titles =
     (case dedup_titles N titles seen_normalized_titles [] of
        (seen, deduped_titles) \<Rightarrow>
          dedup_topics N rest seen
            (if deduped_titles \<noteq> []
             then AList.update topic deduped_titles deduped_digest_titles
             else deduped_digest_titles))"

definition deduplicate :: "nltk \<Rightarrow> digest_titles \<Rightarrow> digest_titles" where
  "deduplicate N digest_titles = dedup_topics N digest_titles {} []"

text \<open>
  \<^verbatim>\<open>digest = {}
for topic, titles in digest_titles.items():
    articles = full_articles.get(topic, [])
    selected = []
    seen_titles = set()
    for title in titles:
        for a in articles:
            if normalize(a["title"]) == normalize(title) and normalize(title) not in seen_titles:
                selected.append(a)
                seen_titles.add(normalize(title))
                break
    if selected:
        digest[topic] = selected\<close>

  The innermost loop stops at the first article that passes the test:
  \<^term>\<open>find\<close>.
\<close>

fun rebuild_titles ::
  "nltk \<Rightarrow> article list \<Rightarrow> string list \<Rightarrow> string set \<Rightarrow> article list \<Rightarrow> article list" where
  "rebuild_titles N articles [] seen_titles selected = selected"
| "rebuild_titles N articles (t # titles) seen_titles selected =
     (case find (\<lambda>a. normalize N (title a) = normalize N t \<and> normalize N t \<notin> seen_titles)
             articles of
        None \<Rightarrow> rebuild_titles N articles titles seen_titles selected
      | Some a \<Rightarrow>
          rebuild_titles N articles titles (insert (normalize N t) seen_titles) (selected @ [a]))"

fun rebuild_topics ::
  "nltk \<Rightarrow> (string \<times> article list) list \<Rightarrow> digest_titles \<Rightarrow> digest \<Rightarrow> digest" where
  "rebuild_topics N full_articles [] digest = digest"
| "rebuild_topics N full_articles ((topic, titles) # rest) digest =
     (let articles = get_list full_articles topic;
          selected = rebuild_titles N articles titles {} []
      in rebuild_topics N full_articles rest
           (if selected \<noteq> [] then AList.update topic selected digest else digest))"

definition rebuild :: "nltk \<Rightarrow> (string \<times> article list) list \<Rightarrow> digest_titles \<Rightarrow> digest" where
  "rebuild N full_articles digest_titles = rebuild_topics N full_articles digest_titles []"

text \<open>The two passes of \<^verbatim>\<open>main\<close> in their order: lines 452 to 479.\<close>

definition reconcile :: "nltk \<Rightarrow> digest_titles \<Rightarrow> (string \<times> article list) list \<Rightarrow> digest" where
  "reconcile N digest_titles full_articles =
     rebuild N full_articles (deduplicate N digest_titles)"

section \<open>History store\<close>

text \<open>\<^verbatim>\<open>key = topic.replace(" ", "_").lower()\<close>\<close>

definition topic_key :: "string \<Rightarrow> string" where
  "topic_key topic = lower (map (\<lambda>c. if c = CHR '' '' then CHR ''_'' else c) topic)"

text \<open>\<^verbatim>\<open>xs[-n:]\<close> for a positive \<open>n\<close>: the last \<open>n\<close> elements, all of them when there are fewer.\<close>

definition last_n :: "nat \<Rightarrow> 'a list \<Rightarrow> 'a list" where
  "last_n n xs = drop (length xs - n) xs"

text \<open>
  \<^verbatim>\<open>for topic, articles in digest.items():
    key = topic.replace(" ", "_").lower()
    if key not in history:
        history[key] = []
    existing_titles = {normalize(a["title"]) for a in history[key]}
    for article in articles:
        if normalize(article["title"]) not in existing_titles:
            history[key].append({
                "title": article["title"],
                "pubDate": article["pubDate"]
            })
    history[key] = history[key][-40:]\<close>
\<close>

fun append_articles :: "nltk \<Rightarrow> string set \<Rightarrow> article list \<Rightarrow> entry list \<Rightarrow> entry list" where
  "append_articles N existing_titles [] entries = entries"
| "append_articles N existing_titles (a # articles) entries =
     append_articles N existing_titles articles
       (if normalize N (title a) \<notin> existing_titles
        then entries @ [\<lparr>title = title a, pubDate = pubDate a\<rparr>]
        else entries)"

definition record_topic :: "nltk \<Rightarrow> string \<Rightarrow> article list \<Rightarrow> history \<Rightarrow> history" where
  "record_topic N topic articles history =
     (let key = topic_key topic;
          history = (if map_of history key = None then AList.update key [] history else history);
          existing_titles = set (map (\<lambda>a. normalize N (title a)) (get_list history key));
          history = AList.update key
                      (append_articles N existing_titles articles (get_list history key)) history
      in AList.update key (last_n 40 (get_list history key)) history)"

fun record_sent :: "nltk \<Rightarrow> digest \<Rightarrow> history \<Rightarrow> history" where
  "record_sent N [] history = history"
| "record_sent N ((topic, articles) # rest) history =
     record_sent N rest (record_topic N topic articles history)"

text \<open>
  Every \<^verbatim>\<open>datetime\<close> of this loop carries the one \<^verbatim>\<open>tzinfo\<close> object \<^verbatim>\<open>ZONE\<close>, so
  Python subtracts the \<^verbatim>\<open>timedelta\<close> from, and compares, the wall-clock readings
  in that zone. A \<^verbatim>\<open>datetime\<close> is modelled as its reading, a number of
  microseconds (the resolution of \<^verbatim>\<open>datetime\<close>).
  \<^verbatim>\<open>parsedate_to_datetime(s).astimezone(ZONE)\<close> is a parameter: \<open>None\<close> where it
  raises, the reading of its result otherwise.

  \<^verbatim>\<open>one_month_ago = datetime.now(ZONE) - timedelta(days=30)
for topic in list(history.keys()):
    new_articles = []
    for article in history[topic]:
        try:
            pub_date = parsedate_to_datetime(article["pubDate"]).astimezone(ZONE)
            if pub_date >= one_month_ago:
                new_articles.append(article)
        except Exception as e: ...
    if new_articles:
        history[topic] = new_articles
    else:
        del history[topic]\<close>
\<close>

definition days_30 :: int where
  "days_30 = 30 * 86400 * 1000000"

definition keep_article :: "(string \<Rightarrow> int option) \<Rightarrow> int \<Rightarrow> entry \<Rightarrow> bool" where
  "keep_article parsedate one_month_ago a =
     (case parsedate (pubDate a) of
        None \<Rightarrow> False
      | Some pub_date \<Rightarrow> pub_date \<ge> one_month_ago)"

fun prune_topics :: "(string \<Rightarrow> int option) \<Rightarrow> int \<Rightarrow> string list \<Rightarrow> history \<Rightarrow> history" where
  "prune_topics parsedate one_month_ago [] history = history"
| "prune_topics parsedate one_month_ago (topic # topics) history =
     (let new_articles = filter (keep_article parsedate one_month_ago) (get_list history topic)
      in prune_topics parsedate one_month_ago topics
           (if new_articles \<noteq> [] then AList.update topic new_articles history
            else AList.delete topic history))"

definition prune :: "(string \<Rightarrow> int option) \<Rightarrow> int \<Rightarrow> history \<Rightarrow> history" where
  "prune parsedate now history =
     prune_topics parsedate (now - days_30) (map fst history) history"

text \<open>
  The end of \<^verbatim>\<open>main\<close>, lines 518 to 559, from the history loaded at the start
  to the history written to \<^verbatim>\<open>history.json\<close>. \<open>sent\<close> tells whether the
  \<^verbatim>\<open>with\<close> block of the SMTP calls ended without an exception; when one is
  raised, the loop that appends is skipped, the handler logs, and the run goes
  on with the pruning.

  \<^verbatim>\<open>try:
    with smtplib.SMTP(SMTP_SERVER, SMTP_PORT) as server: ...
    for topic, articles in digest.items(): ...
except Exception as e:
    logging.error(f"Email failed: {e}")
one_month_ago = ...
for topic in list(history.keys()): ...
with open(HISTORY_FILE, "w") as f:
    json.dump(history, f, indent=2)\<close>
\<close>

definition send_and_save ::
  "nltk \<Rightarrow> (string \<Rightarrow> int option) \<Rightarrow> int \<Rightarrow> bool \<Rightarrow> digest \<Rightarrow> history \<Rightarrow> history" where
  "send_and_save N parsedate now sent digest history =
     (let history = (if sent then record_sent N digest history else history)
      in prune parsedate now history)"

section \<open>The specification's words and sample inputs\<close>

text \<open>
  Section 4.2 of the specification: a historical title with the non-empty token
  set \<open>H\<close> matches the candidate with the token set \<open>T\<close> when
  \<open>|T \<inter> H| / |T| \<ge> 0.4\<close>.
\<close>

definition overlap_match :: "nltk \<Rightarrow> string \<Rightarrow> entry \<Rightarrow> bool" where
  "overlap_match N article_title a =
     (let T = set (split (normalize N article_title));
          H = set (split (normalize N (title a)))
      in H \<noteq> {} \<and> real (card (T \<inter> H)) / real (card T) \<ge> 0.4)"





text \<open>
  Section 4.5: what pruning leaves under one topic key. The entries that parse
  and are not older than the cutoff stay, in their order; a key with none of them
  is no longer a key.
\<close>

definition pruned :: "(string \<Rightarrow> int option) \<Rightarrow> int \<Rightarrow> entry list option \<Rightarrow> entry list option" where
  "pruned parsedate one_month_ago v =
     (case v of
        None \<Rightarrow> None
      | Some es \<Rightarrow>
          if filter (keep_article parsedate one_month_ago) es = [] then None
          else Some (filter (keep_article parsedate one_month_ago) es))"

text \<open>
  Sample libraries for the concrete theorems. Each gives the value of the real
  library on the arguments that the concrete theorems reach: NLTK's Porter
  stemmer takes \<open>agreed\<close> to \<open>agre\<close> (step 1b makes it \<open>agree\<close>, step 5a drops
  the last letter) and \<open>agre\<close> to \<open>agr\<close> (step 5a again), and it strips nothing
  from \<open>oil\<close>, \<open>tax\<close>, \<open>war\<close>, \<open>bank\<close>, \<open>fed\<close>, \<open>gold\<close> or a run of the letter
  \<open>a\<close>; WordNet's lemmatizer returns each of these tokens unchanged.
\<close>

definition nltk_sample :: nltk where
  "nltk_sample =
     \<lparr>stem = (\<lambda>w. if w = ''agreed'' then ''agre'' else if w = ''agre'' then ''agr'' else w),
      lemmatize = (\<lambda>w. w)\<rparr>"

text \<open>
  The two parsers on the texts \<^verbatim>\<open>{"A": "x"}\<close>, \<^verbatim>\<open>{"A": ["x,]"]}\<close> and \<^verbatim>\<open>[]\<close>,
  which are strict JSON and Python literals, and on texts that are neither.
\<close>

definition parsers_sample :: parsers where
  \<open>parsers_sample =
     \<lparr>json_loads = (\<lambda>s.
        if s = ''{"A": "x"}'' then Inr (PDict [(PStr ''A'', PStr ''x'')])
        else if s = ''{"A": ["x,]"]}'' then Inr (PDict [(PStr ''A'', PList [PStr ''x,]''])])
        else if s = ''[]'' then Inr (PList [])
        else Inl JSONDecodeError),
      literal_eval = (\<lambda>s.
        if s = ''{"A": "x"}'' then Inr (PDict [(PStr ''A'', PStr ''x'')])
        else if s = ''{"A": ["x,]"]}'' then Inr (PDict [(PStr ''A'', PList [PStr ''x,]''])])
        else if s = ''[]'' then Inr (PList [])
        else Inl SyntaxError)\<rparr>\<close>

text \<open>
  For a run whose zone is UTC: \<^verbatim>\<open>Mon, 02 Nov 2026 08:00:00 GMT\<close> and
  \<^verbatim>\<open>Thu, 01 Oct 2026 08:00:00 GMT\<close> in microseconds since 1970, any other text
  being no date, and a run at \<^verbatim>\<open>Wed, 04 Nov 2026 12:00:00 GMT\<close>.
\<close>

definition parsedate_sample :: "string \<Rightarrow> int option" where
  "parsedate_sample s =
     (if s = ''Mon, 02 Nov 2026 08:00:00 GMT'' then Some 1793606400000000
      else if s = ''Thu, 01 Oct 2026 08:00:00 GMT'' then Some 1790841600000000
      else None)"

definition now_sample :: int where
  "now_sample = 1793793600000000"

definition history_sample :: history where
  "history_sample =
     [(''economy'', [\<lparr>title = ''Oil Tax'', pubDate = ''Thu, 01 Oct 2026 08:00:00 GMT''\<rparr>]),
      (''world'', [\<lparr>title = ''gold'', pubDate = ''Mon, 02 Nov 2026 08:00:00 GMT''\<rparr>])]"

definition article_sample :: "string \<Rightarrow> article" where
  "article_sample t =
     \<lparr>title = t, pubDate = ''Mon, 02 Nov 2026 08:00:00 GMT'',
      link = Some ''https://news.example/a''\<rparr>"

definition digest_titles_sample :: digest_titles where
  "digest_titles_sample =
     [(''Economy'', [''OIL TAX'', ''war bank'']),
      (''World'', [''oil  tax'', ''Fed'', ''fed'', ''gold''])]"

definition full_articles_sample :: "(string \<times> article list) list" where
  "full_articles_sample =
     [(''Economy'', [article_sample ''Oil tax'', article_sample ''Bank war'']),
      (''World'', [article_sample ''oil tax'', article_sample ''FED'', article_sample ''fed''])]"


section \<open>Lemmas: strings and dictionaries\<close>

lemma split_from_token:
  "\<forall>c \<in> set w. \<not> is_space c \<Longrightarrow> split_from cur (w @ rest) = split_from (cur @ w) rest"
  by (induction w arbitrary: cur) simp_all

lemma is_space_blank: "is_space CHR '' ''"
  by (simp add: is_space_def)

lemma split_from_join:
  "\<forall>w \<in> set ws. w \<noteq> [] \<and> (\<forall>c \<in> set w. \<not> is_space c) \<Longrightarrow>
   split_from [] (join_space ws) = ws"
proof (induction ws rule: join_space.induct)
  case 1
  show ?case by simp
next
  case (2 w)
  then have "split_from [] (w @ []) = split_from ([] @ w) []"
    by (intro split_from_token) simp
  with 2 show ?case by simp
next
  case (3 w v ws)
  then have w: "w \<noteq> []" "\<forall>c \<in> set w. \<not> is_space c" by simp_all
  have "split_from [] (w @ '' '' @ join_space (v # ws)) = split_from ([] @ w) ('' '' @ join_space (v # ws))"
    using w(2) by (rule split_from_token)
  also have "\<dots> = w # split_from [] (join_space (v # ws))"
    using w(1) by (simp add: is_space_blank)
  also have "split_from [] (join_space (v # ws)) = v # ws"
    using 3 by simp
  finally show ?case by simp
qed

lemma lower_join: "lower (join_space ws) = join_space (map lower ws)"
  by (induction ws rule: join_space.induct) (simp_all add: lower_def lower_char_def)

section \<open>Lemmas: the history scan\<close>

lemma articles_scan:
  assumes "ts \<noteq> []"
  shows "is_in_history_articles N (set ts) articles =
     Inr (\<exists>a \<in> set articles. set (split (normalize N (title a))) \<noteq> {} \<and>
          real (card (set ts \<inter> set (split (normalize N (title a))))) / real (card (set ts)) \<ge> 0.4)"
proof (induction articles)
  case Nil
  show ?case by simp
next
  case (Cons a articles)
  from assms have "card (set ts) \<noteq> 0" by simp
  with Cons show ?case
    by (simp add: Let_def MATCH_THRESHOLD_def del: card_eq_0_iff)
qed

lemma values_scan:
  assumes "ts \<noteq> []"
  shows "is_in_history_values N (set ts) history =
     Inr (\<exists>x \<in> set history. \<exists>a \<in> set (snd x). set (split (normalize N (title a))) \<noteq> {} \<and>
          real (card (set ts \<inter> set (split (normalize N (title a))))) / real (card (set ts)) \<ge> 0.4)"
proof (induction history)
  case Nil
  show ?case by simp
next
  case (Cons p history)
  obtain topic articles where p: "p = (topic, articles)" by (cases p)
  show ?case
    unfolding p using Cons by (auto simp add: articles_scan [OF assms])
qed

lemma articles_scan_empty:
  "is_in_history_articles N {} articles =
     (if \<exists>a \<in> set articles. split (normalize N (title a)) \<noteq> [] then Inl ZeroDivisionError else Inr False)"
  by (induction articles) (simp_all add: Let_def)

lemma values_scan_empty:
  "is_in_history_values N {} history =
     (if \<exists>x \<in> set history. \<exists>a \<in> set (snd x). split (normalize N (title a)) \<noteq> []
      then Inl ZeroDivisionError else Inr False)"
proof (induction history)
  case Nil
  show ?case by simp
next
  case (Cons p history)
  obtain topic articles where p: "p = (topic, articles)" by (cases p)
  show ?case
    using Cons by (auto simp add: p articles_scan_empty)
qed

section \<open>Lemmas: deduplication and rebuilding\<close>

lemma update_fresh_key:
  "k \<notin> fst ` set al \<Longrightarrow> AList.update k v al = al @ [(k, v)]"
  by (induction al) auto

lemma set_update_subset:
  "set (AList.update k v al) \<subseteq> insert (k, v) (set al)"
  by (induction al) auto

lemma dedup_titles_result:
  "dedup_titles N titles seen acc = (seen', out) \<Longrightarrow>
   seen' = seen \<union> normalize N ` set titles \<and>
   (\<exists>new. out = acc @ new \<and> distinct (map (normalize N) new) \<and>
          set new \<subseteq> set titles \<and>
          normalize N ` set new = normalize N ` set titles - seen)"
proof (induction titles arbitrary: seen acc)
  case Nil
  then show ?case by simp
next
  case (Cons t titles)
  show ?case
  proof (cases "normalize N t \<in> seen")
    case True
    with Cons.prems have "dedup_titles N titles seen acc = (seen', out)"
      by simp
    from Cons.IH [OF this] True show ?thesis
      by auto
  next
    case False
    with Cons.prems
    have "dedup_titles N titles (insert (normalize N t) seen) (acc @ [t]) = (seen', out)"
      by simp
    from Cons.IH [OF this] obtain new where
      s: "seen' = insert (normalize N t) seen \<union> normalize N ` set titles" and
      o: "out = (acc @ [t]) @ new" and
      d: "distinct (map (normalize N) new)" and
      sub: "set new \<subseteq> set titles" and
      img: "normalize N ` set new = normalize N ` set titles - insert (normalize N t) seen"
      by blast
    have "normalize N t \<notin> normalize N ` set new"
      using img by blast
    then have "distinct (map (normalize N) (t # new))"
      using d by simp
    moreover have "normalize N ` set (t # new) = normalize N ` set (t # titles) - seen"
      using img False by auto
    moreover have "set (t # new) \<subseteq> set (t # titles)"
      using sub by auto
    moreover have "out = acc @ (t # new)"
      using o by simp
    moreover have "seen' = seen \<union> normalize N ` set (t # titles)"
      using s by auto
    ultimately show ?thesis by blast
  qed
qed

lemma dedup_topics_keys:
  "distinct (map fst out) \<Longrightarrow> distinct (map fst (dedup_topics N sel seen out))"
proof (induction sel arbitrary: seen out)
  case Nil
  then show ?case by simp
next
  case (Cons p sel)
  obtain topic titles where p: "p = (topic, titles)" by (cases p)
  obtain seen' d where r: "dedup_titles N titles seen [] = (seen', d)"
    by (cases "dedup_titles N titles seen []")
  show ?case
    using Cons.prems by (auto simp add: p r AList.distinct_update intro!: Cons.IH)
qed

lemma dedup_topics_origin:
  "(k, l) \<in> set (dedup_topics N sel seen out) \<Longrightarrow>
   (k, l) \<in> set out \<or> (\<exists>ts. (k, ts) \<in> set sel \<and> set l \<subseteq> set ts \<and> l \<noteq> [])"
proof (induction sel arbitrary: seen out)
  case Nil
  then show ?case by simp
next
  case (Cons p sel)
  obtain topic titles where p: "p = (topic, titles)" by (cases p)
  obtain seen' d where r: "dedup_titles N titles seen [] = (seen', d)"
    by (cases "dedup_titles N titles seen []")
  from dedup_titles_result [OF r] have sub: "set d \<subseteq> set titles" by auto
  let ?out = "if d \<noteq> [] then AList.update topic d out else out"
  from Cons.prems have "(k, l) \<in> set (dedup_topics N sel seen' ?out)"
    by (simp add: p r)
  from Cons.IH [OF this]
  consider "(k, l) \<in> set ?out" | "\<exists>ts. (k, ts) \<in> set sel \<and> set l \<subseteq> set ts \<and> l \<noteq> []"
    by blast
  then show ?case
  proof cases
    case 1
    then have "(k, l) \<in> set out \<or> ((k, l) = (topic, d) \<and> d \<noteq> [])"
      using set_update_subset [of topic d out] by (auto split: if_splits)
    then show ?thesis using sub by (auto simp add: p)
  next
    case 2
    then show ?thesis by (auto simp add: p)
  qed
qed

lemma dedup_topics_other_key:
  "k \<notin> fst ` set sel \<Longrightarrow> map_of (dedup_topics N sel seen out) k = map_of out k"
proof (induction sel arbitrary: seen out)
  case Nil
  then show ?case by simp
next
  case (Cons p sel)
  obtain topic titles where p: "p = (topic, titles)" by (cases p)
  obtain seen' d where r: "dedup_titles N titles seen [] = (seen', d)"
    by (cases "dedup_titles N titles seen []")
  from Cons.prems have "k \<noteq> topic" "k \<notin> fst ` set sel" by (auto simp add: p)
  then show ?case
    by (simp add: p r Cons.IH AList.update_conv')
qed

lemma dedup_topics_first:
  assumes "distinct (map fst (pre @ (k, ts) # post))"
    and "t \<in> set ts"
    and "normalize N t \<notin> seen"
    and "normalize N t \<notin> normalize N ` set (concat (map snd pre))"
  shows "\<exists>ts'. map_of (dedup_topics N (pre @ (k, ts) # post) seen out) k = Some ts' \<and>
           normalize N t \<in> normalize N ` set ts' \<and> set ts' \<subseteq> set ts"
  using assms
proof (induction pre arbitrary: seen out)
  case Nil
  obtain seen' d where r: "dedup_titles N ts seen [] = (seen', d)"
    by (cases "dedup_titles N ts seen []")
  from dedup_titles_result [OF r]
  have sub: "set d \<subseteq> set ts" and img: "normalize N ` set d = normalize N ` set ts - seen"
    by auto
  from img Nil.prems have m: "normalize N t \<in> normalize N ` set d" by blast
  then have "d \<noteq> []" by auto
  moreover from Nil.prems have "k \<notin> fst ` set post" by auto
  ultimately have "map_of (dedup_topics N ([] @ (k, ts) # post) seen out) k = Some d"
    by (simp add: r dedup_topics_other_key AList.update_conv')
  with m sub show ?case by blast
next
  case (Cons p pre)
  obtain topic titles where p: "p = (topic, titles)" by (cases p)
  obtain seen' d where r: "dedup_titles N titles seen [] = (seen', d)"
    by (cases "dedup_titles N titles seen []")
  from dedup_titles_result [OF r] have s: "seen' = seen \<union> normalize N ` set titles"
    by simp
  have 1: "distinct (map fst (pre @ (k, ts) # post))"
    using Cons.prems(1) by simp
  have 2: "normalize N t \<notin> seen'"
    using Cons.prems(3,4) by (auto simp add: s p)
  have 3: "normalize N t \<notin> normalize N ` set (concat (map snd pre))"
    using Cons.prems(4) by auto
  from Cons.IH [OF 1 Cons.prems(2) 2 3]
  show ?case by (simp add: p r)
qed

lemma dedup_topics_distinct:
  assumes "distinct (map fst sel)"
    and "fst ` set sel \<inter> fst ` set out = {}"
    and "distinct (map (normalize N) (concat (map snd out)))"
    and "normalize N ` set (concat (map snd out)) \<subseteq> seen"
  shows "distinct (map (normalize N) (concat (map snd (dedup_topics N sel seen out))))"
  using assms
proof (induction sel arbitrary: seen out)
  case Nil
  then show ?case by simp
next
  case (Cons p sel)
  obtain topic titles where p: "p = (topic, titles)" by (cases p)
  obtain seen' d where r: "dedup_titles N titles seen [] = (seen', d)"
    by (cases "dedup_titles N titles seen []")
  from dedup_titles_result [OF r]
  have s: "seen' = seen \<union> normalize N ` set titles"
    and dd: "distinct (map (normalize N) d)"
    and img: "normalize N ` set d = normalize N ` set titles - seen"
    by auto
  let ?out = "if d \<noteq> [] then AList.update topic d out else out"
  have fresh: "topic \<notin> fst ` set out"
    using Cons.prems(2) by (auto simp add: p)
  then have out: "?out = (if d \<noteq> [] then out @ [(topic, d)] else out)"
    by (simp add: update_fresh_key)
  have 1: "distinct (map fst sel)" using Cons.prems(1) by simp
  have 2: "fst ` set sel \<inter> fst ` set ?out = {}"
    using Cons.prems(1,2) unfolding out by (auto simp add: p)
  have 3: "distinct (map (normalize N) (concat (map snd ?out)))"
    unfolding out using Cons.prems(3,4) dd img by auto
  have 4: "normalize N ` set (concat (map snd ?out)) \<subseteq> seen'"
    unfolding out using Cons.prems(4) img s by auto
  from Cons.IH [OF 1 2 3 4] show ?case
    by (simp add: p r)
qed

lemma rebuild_titles_origin:
  "a \<in> set (rebuild_titles N articles titles seen selected) \<Longrightarrow>
   a \<in> set selected \<or>
   (a \<in> set articles \<and> (\<exists>t \<in> set titles. normalize N (title a) = normalize N t))"
proof (induction titles arbitrary: seen selected)
  case Nil
  then show ?case by simp
next
  case (Cons t titles)
  show ?case
  proof (cases "find (\<lambda>a. normalize N (title a) = normalize N t \<and> normalize N t \<notin> seen) articles")
    case None
    with Cons.prems have "a \<in> set (rebuild_titles N articles titles seen selected)"
      by simp
    from Cons.IH [OF this] show ?thesis by auto
  next
    case (Some b)
    then have b: "b \<in> set articles" "normalize N (title b) = normalize N t"
      by (auto simp add: find_Some_iff)
    from Some Cons.prems
    have "a \<in> set (rebuild_titles N articles titles (insert (normalize N t) seen) (selected @ [b]))"
      by simp
    from Cons.IH [OF this] b show ?thesis by auto
  qed
qed

lemma rebuild_topics_origin:
  "(k, arts) \<in> set (rebuild_topics N full sel dig) \<Longrightarrow>
   (k, arts) \<in> set dig \<or>
   (\<exists>ts. (k, ts) \<in> set sel \<and> arts = rebuild_titles N (get_list full k) ts {} [] \<and> arts \<noteq> [])"
proof (induction sel arbitrary: dig)
  case Nil
  then show ?case by simp
next
  case (Cons p sel)
  obtain topic titles where p: "p = (topic, titles)" by (cases p)
  let ?s = "rebuild_titles N (get_list full topic) titles {} []"
  let ?dig = "if ?s \<noteq> [] then AList.update topic ?s dig else dig"
  from Cons.prems have "(k, arts) \<in> set (rebuild_topics N full sel ?dig)"
    by (simp add: p Let_def)
  from Cons.IH [OF this]
  consider "(k, arts) \<in> set ?dig"
    | "\<exists>ts. (k, ts) \<in> set sel \<and> arts = rebuild_titles N (get_list full k) ts {} [] \<and> arts \<noteq> []"
    by blast
  then show ?case
  proof cases
    case 1
    then have "(k, arts) \<in> set dig \<or> ((k, arts) = (topic, ?s) \<and> ?s \<noteq> [])"
      using set_update_subset [of topic ?s dig] by (auto split: if_splits)
    then show ?thesis by (auto simp add: p)
  next
    case 2
    then show ?thesis by (auto simp add: p)
  qed
qed

lemma disjoint_topics:
  assumes "distinct (map f (concat (map snd D)))"
    and "distinct (map fst D)"
    and "(k1, l1) \<in> set D" and "(k2, l2) \<in> set D" and "k1 \<noteq> k2"
  shows "f ` set l1 \<inter> f ` set l2 = {}"
  using assms
proof (induction D)
  case Nil
  then show ?case by simp
next
  case (Cons p D)
  obtain k l where p: "p = (k, l)" by (cases p)
  have d: "f ` set l \<inter> f ` set (concat (map snd D)) = {}"
    using Cons.prems(1) by (auto simp add: p)
  have inD: "f ` set l' \<subseteq> f ` set (concat (map snd D))" if "(k', l') \<in> set D" for k' l'
    using that by force
  consider "(k1, l1) = p" "(k2, l2) \<in> set D" | "(k2, l2) = p" "(k1, l1) \<in> set D"
    | "(k1, l1) \<in> set D" "(k2, l2) \<in> set D"
    using Cons.prems(3,4,5) by (auto simp add: p)
  then show ?case
  proof cases
    case 1
    then have "l1 = l" by (simp add: p)
    with d inD [OF 1(2)] show ?thesis by blast
  next
    case 2
    then have "l2 = l" by (simp add: p)
    with d inD [OF 2(2)] show ?thesis by blast
  next
    case 3
    have "distinct (map f (concat (map snd D)))" "distinct (map fst D)"
      using Cons.prems(1,2) by (simp_all add: p)
    from Cons.IH [OF this 3 Cons.prems(5)] show ?thesis .
  qed
qed

lemma deduplicate_distinct:
  "distinct (map fst sel) \<Longrightarrow>
   distinct (map (normalize N) (concat (map snd (deduplicate N sel))))"
  unfolding deduplicate_def by (rule dedup_topics_distinct) simp_all

lemma deduplicate_origin:
  "(k, l) \<in> set (deduplicate N sel) \<Longrightarrow> \<exists>ts. (k, ts) \<in> set sel \<and> set l \<subseteq> set ts \<and> l \<noteq> []"
  unfolding deduplicate_def using dedup_topics_origin [of k l N sel "{}" "[]"] by simp

lemma reconcile_origin:
  assumes "(k, arts) \<in> set (reconcile N sel full)"
  shows "\<exists>ts. (k, ts) \<in> set (deduplicate N sel) \<and> arts \<noteq> [] \<and>
           (\<forall>a \<in> set arts. a \<in> set (get_list full k) \<and>
                (\<exists>t \<in> set ts. normalize N (title a) = normalize N t))"
proof -
  from assms have "(k, arts) \<in> set (rebuild_topics N full (deduplicate N sel) [])"
    by (simp add: reconcile_def rebuild_def)
  from rebuild_topics_origin [OF this] obtain ts where
    ts: "(k, ts) \<in> set (deduplicate N sel)" and
    a: "arts = rebuild_titles N (get_list full k) ts {} []" and ne: "arts \<noteq> []"
    by auto
  have "a \<in> set (get_list full k) \<and> (\<exists>t \<in> set ts. normalize N (title a) = normalize N t)"
    if "a \<in> set arts" for a
    using rebuild_titles_origin [of a N "get_list full k" ts "{}" "[]"] that a by simp
  with ts ne show ?thesis by blast
qed

section \<open>Lemmas: recording and pruning\<close>










lemma pruned_idem: "pruned P c (pruned P c v) = pruned P c v"
  by (simp add: pruned_def split: option.split)

lemma prune_step:
  "map_of (if filter (keep_article P c) (get_list h topic) \<noteq> []
           then AList.update topic (filter (keep_article P c) (get_list h topic)) h
           else AList.delete topic h) k =
   (if k = topic then pruned P c (map_of h k) else map_of h k)"
  by (auto simp add: pruned_def get_list_def AList.update_conv' AList.delete_conv' split: option.split)

lemma prune_topics_lookup:
  "map_of (prune_topics P c topics h) k =
   (if k \<in> set topics then pruned P c (map_of h k) else map_of h k)"
proof (induction topics arbitrary: h)
  case Nil
  show ?case by simp
next
  case (Cons topic topics)
  define h' where
    "h' = (if filter (keep_article P c) (get_list h topic) \<noteq> []
           then AList.update topic (filter (keep_article P c) (get_list h topic)) h
           else AList.delete topic h)"
  have step: "map_of h' j = (if j = topic then pruned P c (map_of h j) else map_of h j)" for j
    unfolding h'_def by (rule prune_step)
  have "prune_topics P c (topic # topics) h = prune_topics P c topics h'"
    by (simp add: Let_def h'_def)
  then have "map_of (prune_topics P c (topic # topics) h) k =
      (if k \<in> set topics then pruned P c (map_of h' k) else map_of h' k)"
    by (simp only: Cons.IH)
  then show ?case
    by (simp add: step pruned_idem)
qed

lemma prune_lookup:
  "map_of (prune P now h) k = pruned P (now - days_30) (map_of h k)"
proof (cases "k \<in> fst ` set h")
  case True
  then show ?thesis by (simp add: prune_def prune_topics_lookup)
next
  case False
  then have "map_of h k = None" by (simp add: map_of_eq_None_iff)
  then show ?thesis by (simp add: prune_def prune_topics_lookup pruned_def)
qed

lemma prune_topics_unchanged:
  assumes "\<forall>k es. map_of h k = Some es \<longrightarrow> es \<noteq> [] \<and> (\<forall>e \<in> set es. keep_article P c e)"
    and "set topics \<subseteq> fst ` set h"
  shows "prune_topics P c topics h = h"
  using assms(2)
proof (induction topics)
  case Nil
  show ?case by simp
next
  case (Cons topic topics)
  then have "topic \<in> fst ` set h" by simp
  then obtain es where es: "map_of h topic = Some es"
    by (cases "map_of h topic") (simp_all add: map_of_eq_None_iff)
  with assms(1) have "es \<noteq> []" "filter (keep_article P c) es = es"
    by auto
  then have "(if filter (keep_article P c) (get_list h topic) \<noteq> []
           then AList.update topic (filter (keep_article P c) (get_list h topic)) h
           else AList.delete topic h) = h"
    using es by (simp add: get_list_def AList.update_triv)
  then show ?case using Cons by (simp add: Let_def)
qed

lemma prune_unchanged:
  assumes "\<forall>k es. map_of h k = Some es \<longrightarrow> es \<noteq> [] \<and> (\<forall>e \<in> set es. keep_article P (now - days_30) e)"
  shows "prune P now h = h"
  unfolding prune_def by (rule prune_topics_unchanged [OF assms]) simp

section \<open>Lemmas: the parser\<close>

text \<open>
  The first stage hands on whatever \<^verbatim>\<open>json.loads\<close> returns: for the text \<^verbatim>\<open>[]\<close>
  it is a list, although the signature of \<^verbatim>\<open>safe_parse_json\<close> announces a
  \<^verbatim>\<open>dict\<close>.
\<close>

lemma safe_parse_json_list_input:
  "safe_parse_json parsers_sample ''[]'' = Inr (PList [])"
  by (simp add: safe_parse_json_def parsers_sample_def)

text \<open>
  An exception of the first \<^verbatim>\<open>json.loads\<close> that is no \<open>JSONDecodeError\<close> (a
  \<open>RecursionError\<close> on deeply nested text) passes the first handler and leaves
  \<^verbatim>\<open>safe_parse_json\<close>.
\<close>

lemma safe_parse_json_propagates:
  "json_loads P raw = Inl e \<Longrightarrow> e \<noteq> JSONDecodeError \<Longrightarrow> safe_parse_json P raw = Inl e"
  by (simp add: safe_parse_json_def)

lemma balance_braces_appends:
  assumes "count_list text CHR ''}'' \<le> count_list text CHR ''{''"
    and "count_list text CHR '']'' \<le> count_list text CHR ''[''"
  shows "balance_braces text =
     text @ replicate (count_list text CHR ''{'' - count_list text CHR ''}'') CHR ''}''
          @ replicate (count_list text CHR ''['' - count_list text CHR '']'') CHR '']''"
proof -
  have c: "count_list (replicate n x) y = (if x = y then n else 0)" for n and x y :: char
    by (induction n) auto
  show ?thesis
    using assms by (auto simp add: balance_braces_def Let_def c)
qed

section \<open>The claims about the parser\<close>




text \<open>
  Claim C10. An input that \<^verbatim>\<open>json.loads\<close> parses is returned as parsed: the
  result is that of the first stage on the untouched input, whatever the
  cleanup would have made of the text.
\<close>

theorem safe_parse_json_strict_first:
  assumes "json_loads P raw = Inr v"
  shows "safe_parse_json P raw = Inr v"
  using assms by (simp add: safe_parse_json_def)

text \<open>
  Claim C10 at an input whose string value holds a comma before a bracket. The
  cleanup would rewrite the text; the result is the parse of the text as given.
\<close>

theorem safe_parse_json_strict_first_witness:
  \<open>json_loads parsers_sample ''{"A": ["x,]"]}'' = Inr (PDict [(PStr ''A'', PList [PStr ''x,]''])]) \<and>
   safe_parse_json parsers_sample ''{"A": ["x,]"]}'' = Inr (PDict [(PStr ''A'', PList [PStr ''x,]''])]) \<and>
   fix_common_json_errors (strip_wrappers ''{"A": ["x,]"]}'') = ''{"A": ["x]"]''\<close>
proof -
  have h: \<open>json_loads parsers_sample ''{"A": ["x,]"]}'' = Inr (PDict [(PStr ''A'', PList [PStr ''x,]''])])\<close>
    by (simp add: parsers_sample_def)
  have c: \<open>fix_common_json_errors (strip_wrappers ''{"A": ["x,]"]}'') = ''{"A": ["x]"]''\<close>
    by code_simp
  from safe_parse_json_strict_first [OF h] h c show ?thesis
    by blast
qed

text \<open>
  Claim C8 at an input. The text has one closing brace more than opening braces.
  The claim asks for that one brace to go; \<^verbatim>\<open>rstrip\<close> drops both trailing braces,
  the slice drops the closing bracket before them, and the bracket pass puts a
  bracket back.
\<close>

theorem balance_braces_excess_closers:
  \<open>balance_braces ''{"A": ["x"]}}'' = ''{"A": ["x"]'' \<and>
   count_list ''{"A": ["x"]}}'' CHR ''}'' = count_list ''{"A": ["x"]}}'' CHR ''{'' + 1 \<and>
   balance_braces ''{"A": ["x"]}}'' \<noteq> ''{"A": ["x"]}''\<close>
  by code_simp

section \<open>The claims about the normalizer and the matcher\<close>

text \<open>
  Claim C9, as the code has it. \<^verbatim>\<open>normalize\<close> gives the same text when applied twice
  to \<open>x\<close> provided that, on every token of the lowercased \<open>x\<close>, the reduction (stem,
  then lemmatize) yields a non-empty token with no whitespace and no upper case
  that the reduction leaves as it is.
\<close>

theorem normalize_idempotent_on_stable_tokens:
  assumes "\<forall>w \<in> set (split (lower x)).
             lemmatize N (stem N w) \<noteq> [] \<and>
             (\<forall>c \<in> set (lemmatize N (stem N w)). \<not> is_space c) \<and>
             lower (lemmatize N (stem N w)) = lemmatize N (stem N w) \<and>
             lemmatize N (stem N (lemmatize N (stem N w))) = lemmatize N (stem N w)"
  shows "normalize N (normalize N x) = normalize N x"
proof -
  define r where "r = (\<lambda>w. lemmatize N (stem N w))"
  define ws where "ws = split (lower x)"
  have n: "normalize N x = join_space (map r ws)"
    by (simp add: normalize_def r_def ws_def comp_def)
  have "lower (join_space (map r ws)) = join_space (map lower (map r ws))"
    by (rule lower_join)
  also have "map lower (map r ws) = map r ws"
    using assms by (simp add: r_def ws_def)
  finally have l: "lower (normalize N x) = join_space (map r ws)"
    by (simp add: n)
  have "split_from [] (join_space (map r ws)) = map r ws"
    by (rule split_from_join) (use assms in \<open>auto simp add: r_def ws_def\<close>)
  then have s: "split (lower (normalize N x)) = map r ws"
    by (simp add: l split_def)
  have "map r (map r ws) = map r ws"
    using assms by (simp add: r_def ws_def)
  then have "join_space (map r (split (lower (normalize N x)))) = join_space (map r ws)"
    by (simp only: s)
  moreover have "normalize N (normalize N x) = join_space (map r (split (lower (normalize N x))))"
    by (simp add: normalize_def [of N "normalize N x"] r_def comp_def)
  ultimately show ?thesis
    by (simp only: n)
qed

text \<open>
  Claim C9 at an input with upper case and a double blank.
\<close>

theorem normalize_idempotent_on_stable_tokens_witness:
  "normalize nltk_sample (normalize nltk_sample ''Oil  TAX war'') = normalize nltk_sample ''Oil  TAX war'' \<and>
   normalize nltk_sample ''Oil  TAX war'' = ''oil tax war''"
proof -
  have t: "split (lower ''Oil  TAX war'') = [''oil'', ''tax'', ''war'']"
    by code_simp
  have h: "\<forall>w \<in> set (split (lower ''Oil  TAX war'')).
             lemmatize nltk_sample (stem nltk_sample w) \<noteq> [] \<and>
             (\<forall>c \<in> set (lemmatize nltk_sample (stem nltk_sample w)). \<not> is_space c) \<and>
             lower (lemmatize nltk_sample (stem nltk_sample w)) = lemmatize nltk_sample (stem nltk_sample w) \<and>
             lemmatize nltk_sample (stem nltk_sample (lemmatize nltk_sample (stem nltk_sample w))) =
               lemmatize nltk_sample (stem nltk_sample w)"
    unfolding t by code_simp
  have v: "normalize nltk_sample ''Oil  TAX war'' = ''oil tax war''"
    by code_simp
  from normalize_idempotent_on_stable_tokens [OF h] v show ?thesis
    by simp
qed

text \<open>
  Claim C9 as the specification words it holds for every string. The Porter
  stemmer is not idempotent: \<open>agreed\<close> becomes \<open>agre\<close>, and \<open>agre\<close> becomes \<open>agr\<close>.
\<close>

theorem normalize_not_idempotent:
  "normalize nltk_sample ''agreed'' = ''agre'' \<and>
   normalize nltk_sample (normalize nltk_sample ''agreed'') = ''agr''"
  by code_simp

text \<open>
  Claim C3. For a candidate title with no token, \<^verbatim>\<open>is_in_history\<close> returns
  \<^verbatim>\<open>False\<close> only when no historical title has a token; as soon as one has, the
  division by the candidate's token count raises \<^verbatim>\<open>ZeroDivisionError\<close>.
\<close>

theorem is_in_history_zero_tokens:
  assumes "split (normalize N article_title) = []"
  shows "is_in_history N article_title history =
     (if \<exists>x \<in> set history. \<exists>a \<in> set (snd x). split (normalize N (title a)) \<noteq> []
      then Inl ZeroDivisionError else Inr False)"
  using assms by (simp add: is_in_history_def values_scan_empty)

text \<open>
  Claim C3 at an input: a title of two blanks against a history of two titles.
\<close>

theorem is_in_history_zero_tokens_witness:
  "split (normalize nltk_sample ''  '') = [] \<and>
   is_in_history nltk_sample ''  '' history_sample = Inl ZeroDivisionError"
proof -
  have h: "split (normalize nltk_sample ''  '') = []"
    by code_simp
  have e: "\<exists>x \<in> set history_sample. \<exists>a \<in> set (snd x). split (normalize nltk_sample (title a)) \<noteq> []"
    by code_simp
  from is_in_history_zero_tokens [OF h, of history_sample] e h show ?thesis
    by simp
qed

text \<open>
  Claim C4. For a candidate title with at least one token, \<^verbatim>\<open>is_in_history\<close>
  raises nothing and returns \<^verbatim>\<open>True\<close> exactly when some historical title, under any
  topic, has a non-empty token set \<open>H\<close> with \<open>|T \<inter> H| / |T| \<ge> 0.4\<close>; and once
  an entry matches, the result is \<^verbatim>\<open>True\<close> whatever stands before and behind it.
\<close>

theorem is_in_history_iff_overlap:
  assumes "split (normalize N article_title) \<noteq> []"
  shows "is_in_history N article_title history =
           Inr (\<exists>x \<in> set history. \<exists>a \<in> set (snd x). overlap_match N article_title a) \<and>
         (overlap_match N article_title a \<longrightarrow>
            is_in_history N article_title (earlier @ (topic, before @ a # after) # later) = Inr True)"
proof -
  have scan: "is_in_history N article_title h =
      Inr (\<exists>x \<in> set h. \<exists>a \<in> set (snd x). overlap_match N article_title a)" for h
    unfolding is_in_history_def Let_def overlap_match_def
    by (rule values_scan [OF assms])
  have "is_in_history N article_title (earlier @ (topic, before @ a # after) # later) = Inr True"
    if "overlap_match N article_title a"
    unfolding scan using that by auto
  with scan show ?thesis by blast
qed

text \<open>
  Claim C4 at the threshold: two tokens of five match (0.4), one of three does
  not.
\<close>

theorem is_in_history_iff_overlap_witness:
  "split (normalize nltk_sample ''oil tax war bank fed'') \<noteq> [] \<and>
   is_in_history nltk_sample ''oil tax war bank fed'' history_sample = Inr True \<and>
   is_in_history nltk_sample ''oil war bank'' history_sample = Inr False"
proof -
  have h1: "split (normalize nltk_sample ''oil tax war bank fed'') \<noteq> []"
    by code_simp
  have h2: "split (normalize nltk_sample ''oil war bank'') \<noteq> []"
    by code_simp
  have m1: "(\<exists>x \<in> set history_sample. \<exists>a \<in> set (snd x).
               overlap_match nltk_sample ''oil tax war bank fed'' a) = True"
    by code_simp
  have m2: "(\<exists>x \<in> set history_sample. \<exists>a \<in> set (snd x).
               overlap_match nltk_sample ''oil war bank'' a) = False"
    by code_simp
  from is_in_history_iff_overlap [OF h1, of history_sample]
    is_in_history_iff_overlap [OF h2, of history_sample] h1 m1 m2
  show ?thesis by simp
qed

section \<open>The claims about the reconciler\<close>

text \<open>
  Claim C2. Every topic of the reconciled digest holds at least one article;
  each of its articles is an article of that topic's candidates, and its
  normalized title is that of a title selected under the topic. A title whose
  normalized form is that of no candidate of the topic is the normalized title
  of no article of the topic.
\<close>

theorem reconcile_only_candidates:
  assumes "(topic, selected) \<in> set (reconcile N digest_titles full_articles)"
  shows "selected \<noteq> [] \<and>
         (\<forall>a \<in> set selected.
            a \<in> set (get_list full_articles topic) \<and>
            (\<exists>titles t. (topic, titles) \<in> set digest_titles \<and> t \<in> set titles \<and>
                         normalize N (title a) = normalize N t)) \<and>
         (\<forall>t. (\<forall>c \<in> set (get_list full_articles topic). normalize N (title c) \<noteq> normalize N t) \<longrightarrow>
              (\<forall>a \<in> set selected. normalize N (title a) \<noteq> normalize N t))"
proof -
  from reconcile_origin [OF assms] obtain ts where
    ts: "(topic, ts) \<in> set (deduplicate N digest_titles)" and ne: "selected \<noteq> []" and
    a: "\<forall>a \<in> set selected. a \<in> set (get_list full_articles topic) \<and>
          (\<exists>t \<in> set ts. normalize N (title a) = normalize N t)"
    by blast
  from deduplicate_origin [OF ts] obtain titles where
    t: "(topic, titles) \<in> set digest_titles" "set ts \<subseteq> set titles"
    by blast
  have "\<forall>a \<in> set selected.
            a \<in> set (get_list full_articles topic) \<and>
            (\<exists>titles t. (topic, titles) \<in> set digest_titles \<and> t \<in> set titles \<and>
                         normalize N (title a) = normalize N t)"
    using a t by blast
  moreover have "\<forall>t. (\<forall>c \<in> set (get_list full_articles topic). normalize N (title c) \<noteq> normalize N t) \<longrightarrow>
              (\<forall>a \<in> set selected. normalize N (title a) \<noteq> normalize N t)"
    using a by blast
  ultimately show ?thesis using ne by blast
qed

text \<open>
  Claim C2 at an input: \<open>war bank\<close> is selected under Economy, whose candidates are
  \<open>Oil tax\<close> and \<open>Bank war\<close>; it does not reach the digest.
\<close>

theorem reconcile_only_candidates_witness:
  "reconcile nltk_sample digest_titles_sample full_articles_sample =
     [(''Economy'', [article_sample ''Oil tax'']), (''World'', [article_sample ''FED''])] \<and>
   article_sample ''Oil tax'' \<in> set (get_list full_articles_sample ''Economy'') \<and>
   normalize nltk_sample (title (article_sample ''Bank war'')) \<noteq> normalize nltk_sample ''war bank''"
proof -
  have r: "reconcile nltk_sample digest_titles_sample full_articles_sample =
     [(''Economy'', [article_sample ''Oil tax'']), (''World'', [article_sample ''FED''])]"
    by code_simp
  then have h: "(''Economy'', [article_sample ''Oil tax'']) \<in>
      set (reconcile nltk_sample digest_titles_sample full_articles_sample)"
    by simp
  have g: "\<forall>c \<in> set (get_list full_articles_sample ''Economy'').
             normalize nltk_sample (title c) \<noteq> normalize nltk_sample ''war bank''"
    by code_simp
  from reconcile_only_candidates [OF h] g
  have "article_sample ''Oil tax'' \<in> set (get_list full_articles_sample ''Economy'')"
    by simp
  moreover have "normalize nltk_sample (title (article_sample ''Bank war'')) \<noteq>
      normalize nltk_sample ''war bank''"
    by code_simp
  ultimately show ?thesis using r by blast
qed

text \<open>
  Claim C6. In the deduplicated selection of a mapping no normalized title occurs
  twice; a title whose normalized form occurs under no earlier topic keeps that
  form under its own topic; every kept title stands under the topic it was
  selected under; two topics share no normalized title, in the deduplicated
  selection and in the digest rebuilt from it.
\<close>

theorem deduplicate_first_topic:
  assumes "distinct (map fst digest_titles)"
  shows "distinct (map (normalize N) (concat (map snd (deduplicate N digest_titles)))) \<and>
         (digest_titles = earlier @ (topic, titles) # later \<and> t \<in> set titles \<and>
          normalize N t \<notin> normalize N ` set (concat (map snd earlier)) \<longrightarrow>
            (\<exists>kept. map_of (deduplicate N digest_titles) topic = Some kept \<and>
                    normalize N t \<in> normalize N ` set kept \<and> set kept \<subseteq> set titles)) \<and>
         ((k, l) \<in> set (deduplicate N digest_titles) \<longrightarrow>
            (\<exists>ts. (k, ts) \<in> set digest_titles \<and> set l \<subseteq> set ts)) \<and>
         ((k1, l1) \<in> set (deduplicate N digest_titles) \<and>
          (k2, l2) \<in> set (deduplicate N digest_titles) \<and> k1 \<noteq> k2 \<longrightarrow>
            normalize N ` set l1 \<inter> normalize N ` set l2 = {}) \<and>
         ((k1, s1) \<in> set (reconcile N digest_titles full_articles) \<and>
          (k2, s2) \<in> set (reconcile N digest_titles full_articles) \<and> k1 \<noteq> k2 \<longrightarrow>
            (\<lambda>a. normalize N (title a)) ` set s1 \<inter> (\<lambda>a. normalize N (title a)) ` set s2 = {})"
proof -
  let ?D = "deduplicate N digest_titles"
  have dist: "distinct (map (normalize N) (concat (map snd ?D)))"
    using assms by (rule deduplicate_distinct)
  have keys: "distinct (map fst ?D)"
    unfolding deduplicate_def by (rule dedup_topics_keys) simp
  have first: "\<exists>kept. map_of ?D topic = Some kept \<and>
                    normalize N t \<in> normalize N ` set kept \<and> set kept \<subseteq> set titles"
    if "digest_titles = earlier @ (topic, titles) # later" "t \<in> set titles"
      "normalize N t \<notin> normalize N ` set (concat (map snd earlier))"
    unfolding deduplicate_def that(1)
    by (rule dedup_topics_first) (use assms that in simp_all)
  have origin: "\<exists>ts. (k, ts) \<in> set digest_titles \<and> set l \<subseteq> set ts" if "(k, l) \<in> set ?D"
    using deduplicate_origin [OF that] by blast
  have disj: "normalize N ` set l1 \<inter> normalize N ` set l2 = {}"
    if "(k1, l1) \<in> set ?D" "(k2, l2) \<in> set ?D" "k1 \<noteq> k2" for k1 l1 k2 l2
    using dist keys that by (rule disjoint_topics)
  have final: "(\<lambda>a. normalize N (title a)) ` set s1 \<inter> (\<lambda>a. normalize N (title a)) ` set s2 = {}"
    if r1: "(k1, s1) \<in> set (reconcile N digest_titles full_articles)"
      and r2: "(k2, s2) \<in> set (reconcile N digest_titles full_articles)" and ne: "k1 \<noteq> k2"
  proof -
    from reconcile_origin [OF r1] obtain ts1 where
      1: "(k1, ts1) \<in> set ?D" "\<forall>a \<in> set s1. \<exists>t \<in> set ts1. normalize N (title a) = normalize N t"
      by blast
    from reconcile_origin [OF r2] obtain ts2 where
      2: "(k2, ts2) \<in> set ?D" "\<forall>a \<in> set s2. \<exists>t \<in> set ts2. normalize N (title a) = normalize N t"
      by blast
    have "(\<lambda>a. normalize N (title a)) ` set s1 \<subseteq> normalize N ` set ts1"
      using 1(2) by auto
    moreover have "(\<lambda>a. normalize N (title a)) ` set s2 \<subseteq> normalize N ` set ts2"
      using 2(2) by auto
    ultimately show ?thesis
      using disj [OF 1(1) 2(1) ne] by blast
  qed
  show ?thesis
  proof (intro conjI impI)
    show "distinct (map (normalize N) (concat (map snd ?D)))"
      by (rule dist)
  next
    assume "digest_titles = earlier @ (topic, titles) # later \<and> t \<in> set titles \<and>
          normalize N t \<notin> normalize N ` set (concat (map snd earlier))"
    then show "\<exists>kept. map_of ?D topic = Some kept \<and>
                    normalize N t \<in> normalize N ` set kept \<and> set kept \<subseteq> set titles"
      by (intro first) simp_all
  next
    assume "(k, l) \<in> set ?D"
    then show "\<exists>ts. (k, ts) \<in> set digest_titles \<and> set l \<subseteq> set ts"
      by (rule origin)
  next
    assume "(k1, l1) \<in> set ?D \<and> (k2, l2) \<in> set ?D \<and> k1 \<noteq> k2"
    then show "normalize N ` set l1 \<inter> normalize N ` set l2 = {}"
      by (intro disj [of k1 l1 k2 l2]) simp_all
  next
    assume "(k1, s1) \<in> set (reconcile N digest_titles full_articles) \<and>
          (k2, s2) \<in> set (reconcile N digest_titles full_articles) \<and> k1 \<noteq> k2"
    then show "(\<lambda>a. normalize N (title a)) ` set s1 \<inter> (\<lambda>a. normalize N (title a)) ` set s2 = {}"
      by (intro final) simp_all
  qed
qed

text \<open>
  Claim C6 at an input: \<open>oil  tax\<close> under World repeats \<open>OIL TAX\<close> under Economy
  and is dropped.
\<close>

theorem deduplicate_first_topic_witness:
  "distinct (map fst digest_titles_sample) \<and>
   deduplicate nltk_sample digest_titles_sample =
     [(''Economy'', [''OIL TAX'', ''war bank'']), (''World'', [''Fed'', ''gold''])] \<and>
   distinct (map (normalize nltk_sample)
     (concat (map snd (deduplicate nltk_sample digest_titles_sample))))"
proof -
  have h: "distinct (map fst digest_titles_sample)"
    by code_simp
  have v: "deduplicate nltk_sample digest_titles_sample =
     [(''Economy'', [''OIL TAX'', ''war bank'']), (''World'', [''Fed'', ''gold''])]"
    by code_simp
  from deduplicate_first_topic [OF h, where N = nltk_sample, THEN conjunct1] h v
  show ?thesis by blast
qed

section \<open>The claims about the history store\<close>



text \<open>
  Claim C5, as the code has it. When the send fails nothing is appended, and the
  history written is the loaded one pruned: under each key the entries that
  pruning keeps. It is the loaded history when no entry is stale and no key is
  empty. When the send succeeds the digest is recorded first.
\<close>

theorem send_failure_history:
  "send_and_save N parsedate now False digest history = prune parsedate now history \<and>
   map_of (send_and_save N parsedate now False digest history) k =
     pruned parsedate (now - days_30) (map_of history k) \<and>
   ((\<forall>k es. map_of history k = Some es \<longrightarrow>
        es \<noteq> [] \<and> (\<forall>e \<in> set es. keep_article parsedate (now - days_30) e)) \<longrightarrow>
      send_and_save N parsedate now False digest history = history) \<and>
   send_and_save N parsedate now True digest history =
     prune parsedate now (record_sent N digest history)"
proof (intro conjI impI)
  show "send_and_save N parsedate now False digest history = prune parsedate now history"
    by (simp add: send_and_save_def)
next
  show "map_of (send_and_save N parsedate now False digest history) k =
     pruned parsedate (now - days_30) (map_of history k)"
    by (simp add: send_and_save_def prune_lookup)
next
  assume "\<forall>k es. map_of history k = Some es \<longrightarrow>
        es \<noteq> [] \<and> (\<forall>e \<in> set es. keep_article parsedate (now - days_30) e)"
  then have "prune parsedate now history = history"
    by (rule prune_unchanged)
  then show "send_and_save N parsedate now False digest history = history"
    by (simp add: send_and_save_def)
next
  show "send_and_save N parsedate now True digest history =
     prune parsedate now (record_sent N digest history)"
    by (simp add: send_and_save_def)
qed

text \<open>
  Claim C5 at an input: the send fails and the only entry is two days old.
\<close>

theorem send_failure_history_witness:
  "send_and_save nltk_sample parsedate_sample now_sample False
     [(''Economy'', [article_sample ''oil tax''])]
     [(''world'', [\<lparr>title = ''gold'', pubDate = ''Mon, 02 Nov 2026 08:00:00 GMT''\<rparr>])] =
   [(''world'', [\<lparr>title = ''gold'', pubDate = ''Mon, 02 Nov 2026 08:00:00 GMT''\<rparr>])]"
proof -
  have h: "\<forall>k es. map_of [(''world'', [\<lparr>title = ''gold'', pubDate = ''Mon, 02 Nov 2026 08:00:00 GMT''\<rparr>])] k = Some es \<longrightarrow>
        es \<noteq> [] \<and> (\<forall>e \<in> set es. keep_article parsedate_sample (now_sample - days_30) e)"
    by (auto simp add: keep_article_def parsedate_sample_def now_sample_def days_30_def
        split: if_splits)
  from send_failure_history [where parsedate = parsedate_sample and now = now_sample
      and history = "[(''world'', [\<lparr>title = ''gold'', pubDate = ''Mon, 02 Nov 2026 08:00:00 GMT''\<rparr>])]"] h
  show ?thesis by blast
qed

text \<open>
  Claim C5 as the specification words it has the written history equal the
  loaded one whenever the send fails. The pruning stands behind the handler, not
  in the \<^verbatim>\<open>try\<close> block: the entry of 1 October goes although nothing was sent.
\<close>

theorem send_failure_prunes_history:
  "send_and_save nltk_sample parsedate_sample now_sample False
     [(''Economy'', [article_sample ''oil tax''])] history_sample =
     [(''world'', [\<lparr>title = ''gold'', pubDate = ''Mon, 02 Nov 2026 08:00:00 GMT''\<rparr>])] \<and>
   send_and_save nltk_sample parsedate_sample now_sample False
     [(''Economy'', [article_sample ''oil tax''])] history_sample \<noteq> history_sample"
  by code_simp

end
